theory Spec2Isabelle
  imports Complex_Main "HOL-Library.Multiset"
begin

section \<open>Numbers and data\<close>

text \<open>
  The kernel computes with C++ \<open>double\<close>. A double is modelled as a real number:
  rounding, overflow and denormals are outside the model, and every arithmetic
  operation is the exact one. The only place where exact arithmetic has no answer is
  a division by zero; there the model writes out what IEEE-754 division gives
  (an infinity, which every later comparison of the source rejects or accepts in a
  fixed way, or a NaN, which is kept as a value of its own).

  Vertex counts and loop indices (\<open>Py_ssize_t\<close>, never negative here) are natural
  numbers. A buffer of shape \<open>(N, 2)\<close> is the list of its rows, row \<open>i\<close> being
  the pair \<open>(buf[2 i], buf[2 i + 1])\<close>.
\<close>

type_synonym point = "real \<times> real"

type_synonym segment = "point \<times> point"

record IntersectionPoint =
  ip_t :: real
  ip_x :: real
  ip_y :: real

text \<open>
  What \<open>compute_line_segment_intersection\<close> leaves behind: return value 0
  (\<open>Miss\<close>), return value 1 with the three fields of \<open>*result\<close> set (\<open>Hit\<close>),
  or return value 1 with all three fields NaN (\<open>HitNaN\<close>).
\<close>

datatype hit = Miss | Hit IntersectionPoint | HitNaN

section \<open>Geometry primitives\<close>

text \<open>
  \<open>compute_line_segment_intersection\<close>. When \<open>denom\<close> is zero and the guard
  \<open>fabs(denom) < eps\<close> lets it through (so \<open>eps \<le> 0\<close>), \<open>t\<close> and \<open>u\<close> are
  quotients by zero: a nonzero numerator gives an infinity, which fails one of the four
  range comparisons, and two zero numerators give two NaNs, for which all four
  comparisons are false, so the function returns 1 with NaN fields.
\<close>

definition compute_line_segment_intersection ::
  "point \<Rightarrow> point \<Rightarrow> point \<Rightarrow> point \<Rightarrow> real \<Rightarrow> hit" where
  "compute_line_segment_intersection p1 p2 p3 p4 eps =
     (let x1 = fst p1; y1 = snd p1;
          x2 = fst p2; y2 = snd p2;
          x3 = fst p3; y3 = snd p3;
          x4 = fst p4; y4 = snd p4;
          denom = (x1 - x2) * (y3 - y4) - (y1 - y2) * (x3 - x4)
      in if \<bar>denom\<bar> < eps then Miss
         else
           let tnum = (x1 - x3) * (y3 - y4) - (y1 - y3) * (x3 - x4);
               unum = - ((x1 - x2) * (y1 - y3) - (y1 - y2) * (x1 - x3))
           in if denom = 0 then (if tnum = 0 \<and> unum = 0 then HitNaN else Miss)
              else
                let t = tnum / denom;
                    u = unum / denom
                in if t < - eps \<or> t > 1 + eps \<or> u < - eps \<or> u > 1 + eps then Miss
                   else Hit \<lparr>ip_t = t, ip_x = x1 + t * (x2 - x1), ip_y = y1 + t * (y2 - y1)\<rparr>)"

text \<open>The quantities the specification names for two segments.\<close>

definition denom_of :: "point \<Rightarrow> point \<Rightarrow> point \<Rightarrow> point \<Rightarrow> real" where
  "denom_of p1 p2 p3 p4 =
     (fst p1 - fst p2) * (snd p3 - snd p4) - (snd p1 - snd p2) * (fst p3 - fst p4)"

definition t_of :: "point \<Rightarrow> point \<Rightarrow> point \<Rightarrow> point \<Rightarrow> real" where
  "t_of p1 p2 p3 p4 =
     ((fst p1 - fst p3) * (snd p3 - snd p4) - (snd p1 - snd p3) * (fst p3 - fst p4))
       / denom_of p1 p2 p3 p4"

definition u_of :: "point \<Rightarrow> point \<Rightarrow> point \<Rightarrow> point \<Rightarrow> real" where
  "u_of p1 p2 p3 p4 =
     - ((fst p1 - fst p2) * (snd p1 - snd p3) - (snd p1 - snd p2) * (fst p1 - fst p3))
       / denom_of p1 p2 p3 p4"

text \<open>The point at parameter \<open>t\<close> on the line from \<open>p\<close> to \<open>q\<close>.\<close>

definition along :: "point \<Rightarrow> point \<Rightarrow> real \<Rightarrow> point" where
  "along p q t = (fst p + t * (fst q - fst p), snd p + t * (snd q - snd p))"

definition in_range :: "real \<Rightarrow> real \<Rightarrow> bool" where
  "in_range eps t = (- eps \<le> t \<and> t \<le> 1 + eps)"

definition record_at :: "point \<Rightarrow> point \<Rightarrow> real \<Rightarrow> IntersectionPoint" where
  "record_at p q t = \<lparr>ip_t = t, ip_x = fst (along p q t), ip_y = snd (along p q t)\<rparr>"


text \<open>The guard constant \<open>1e-300\<close> of the ray cast.\<close>

definition tiny :: real where
  "tiny = 1 / 10 ^ 300"

text \<open>
  The flag \<open>intersect\<close> of \<open>point_in_polygon\<close> for vertex \<open>i\<close> at \<open>(xi, yi)\<close> and
  vertex \<open>j\<close> at \<open>(xj, yj)\<close>. The \<open>&&\<close> of the source evaluates the quotient only
  when the two vertices lie on different sides of the ray. Should the guarded
  denominator be exactly zero, the quotient is \<open>+\<infinity>\<close> for a positive numerator (and
  \<open>x < +\<infinity>\<close> holds) and \<open>-\<infinity>\<close> or NaN otherwise (and the comparison fails).
\<close>

definition edge_crosses :: "real \<Rightarrow> real \<Rightarrow> point \<Rightarrow> point \<Rightarrow> bool" where
  "edge_crosses x y vi vj =
     (let xi = fst vi; yi = snd vi; xj = fst vj; yj = snd vj
      in ((yi > y) \<noteq> (yj > y)) \<and>
         (if yj - yi + tiny = 0 then 0 < (xj - xi) * (y - yi)
          else x < (xj - xi) * (y - yi) / (yj - yi + tiny) + xi))"

function pip_loop ::
  "real \<Rightarrow> real \<Rightarrow> point list \<Rightarrow> nat \<Rightarrow> nat \<Rightarrow> nat \<Rightarrow> bool \<Rightarrow> bool" where
  "pip_loop x y poly n i j inside =
     (if i < n
      then pip_loop x y poly n (i + 1) i
             (if edge_crosses x y (poly ! i) (poly ! j) then \<not> inside else inside)
      else inside)"
  by pat_completeness auto
termination
  by (relation "measure (\<lambda>(x, y, poly, n, i, j, inside). n - i)") auto

declare pip_loop.simps [simp del]

definition point_in_polygon :: "real \<Rightarrow> real \<Rightarrow> point list \<Rightarrow> nat \<Rightarrow> bool" where
  "point_in_polygon x y poly n =
     (if n < 3 then False else pip_loop x y poly n 0 (n - 1) False)"

definition effective_polygon_length :: "point list \<Rightarrow> nat \<Rightarrow> nat" where
  "effective_polygon_length poly rows =
     (if rows > 1
      then (let first = poly ! 0; lastv = poly ! (rows - 1)
            in if \<bar>fst first - fst lastv\<bar> < 1 / 10 ^ 9 \<and> \<bar>snd first - snd lastv\<bar> < 1 / 10 ^ 9
               then rows - 1 else rows)
      else rows)"

section \<open>Errors and loops\<close>

text \<open>
  \<open>ValueError\<close> and \<open>TypeError\<close> are the Python exceptions the source raises, with
  their messages; \<open>OtherError\<close> is an exception of any other class, left pending by a
  call of the host API. An operation ends by raising an exception (\<open>Raised\<close>) or by
  returning. \<open>OutOfBounds\<close> is a write past the end of the scratch array,
  \<open>NonFinite\<close> a call of \<open>std::sort\<close> on records with NaN keys (its comparator is
  then no strict weak order), and \<open>IntOverflow\<close> a conversion or sum that leaves
  \<open>Py_ssize_t\<close>, and \<open>NullRead\<close> a read through a null pointer: four places where
  the C++ program has no defined behaviour. Failure to allocate memory is not modelled.
\<close>

datatype py_exception = ValueError string | TypeError string | OtherError string

datatype error = Raised py_exception | OutOfBounds | NonFinite | IntOverflow | NullRead

text \<open>A counted loop whose body may fail: the state is threaded through the items.\<close>

fun for_each :: "('a \<Rightarrow> 's \<Rightarrow> error + 's) \<Rightarrow> 'a list \<Rightarrow> 's \<Rightarrow> error + 's" where
  "for_each body [] s = Inr s"
| "for_each body (a # as) s =
     (case body a s of Inl e \<Rightarrow> Inl e | Inr s' \<Rightarrow> for_each body as s')"

section \<open>Clipping one line, on vectors\<close>

text \<open>
  An element of the record array: a record with finite fields, or \<open>None\<close> for the
  record whose fields are NaN.
\<close>

type_synonym cell = "IntersectionPoint option"

text \<open>
  The inner loop of \<open>generate_line_fill\<close> over the polygon's edges: edge \<open>j\<close> runs
  from vertex \<open>j\<close> to vertex \<open>(j + 1) % polygon_len\<close>, and an accepted intersection is
  pushed to the back of the vector.
\<close>

definition push_hit :: "hit \<Rightarrow> cell list \<Rightarrow> cell list" where
  "push_hit h v = (case h of Miss \<Rightarrow> v | Hit ip \<Rightarrow> v @ [Some ip] | HitNaN \<Rightarrow> v @ [None])"

definition edge_hit :: "point list \<Rightarrow> nat \<Rightarrow> point \<Rightarrow> point \<Rightarrow> real \<Rightarrow> nat \<Rightarrow> hit" where
  "edge_hit polygon polygon_len start end eps j =
     compute_line_segment_intersection start end
       (polygon ! j) (polygon ! ((j + 1) mod polygon_len)) eps"

definition collect_intersections ::
  "point list \<Rightarrow> nat \<Rightarrow> point \<Rightarrow> point \<Rightarrow> real \<Rightarrow> cell list" where
  "collect_intersections polygon polygon_len start end eps =
     fold (\<lambda>j v. push_hit (edge_hit polygon polygon_len start end eps j) v) [0..<polygon_len] []"

text \<open>
  \<open>std::sort\<close> with the comparator \<open>a.t < b.t\<close>. The standard fixes the result up to
  the order of records with equal keys; \<open>sort_key\<close> is one such result, and the
  records of one query line are equal when their keys are (lemmas
  \<open>std_sort_determined\<close> and \<open>collected_same_key\<close> below), so it is the only one.
\<close>

definition std_sort :: "IntersectionPoint list \<Rightarrow> IntersectionPoint list" where
  "std_sort v = sort_key ip_t v"

text \<open>The loop that copies the sorted records to \<open>unique_intersections\<close>.\<close>

fun unique_loop :: "IntersectionPoint list \<Rightarrow> IntersectionPoint list \<Rightarrow> IntersectionPoint list" where
  "unique_loop [] unique_intersections = unique_intersections"
| "unique_loop (ip # rest) unique_intersections =
     (if unique_intersections \<noteq> [] \<and> \<bar>ip_t ip - ip_t (last unique_intersections)\<bar> < 1 / 10 ^ 9
      then unique_loop rest unique_intersections
      else unique_loop rest (unique_intersections @ [ip]))"

text \<open>The loop over \<open>k = 0, 2, 4, ...\<close> that tests the midpoint of each pair.\<close>

function pair_loop ::
  "point list \<Rightarrow> nat \<Rightarrow> IntersectionPoint list \<Rightarrow> nat \<Rightarrow> segment list" where
  "pair_loop polygon polygon_len unique_intersections k =
     (if k + 1 < length unique_intersections
      then (let x1 = ip_x (unique_intersections ! k);
                y1 = ip_y (unique_intersections ! k);
                x2 = ip_x (unique_intersections ! (k + 1));
                y2 = ip_y (unique_intersections ! (k + 1));
                mid_x = 0.5 * (x1 + x2);
                mid_y = 0.5 * (y1 + y2)
            in (if \<not> point_in_polygon mid_x mid_y polygon polygon_len then []
                else [((x1, y1), (x2, y2))])
               @ pair_loop polygon polygon_len unique_intersections (k + 2))
      else [])"
  by pat_completeness auto
termination
  by (relation "measure (\<lambda>(polygon, polygon_len, u, k). length u - k)") auto

declare pair_loop.simps [simp del]

text \<open>
  The body of the loop over the offsets in \<open>generate_line_fill\<close>, for the candidate
  line from \<open>start\<close> to \<open>end\<close>: collect, leave the line when fewer than two
  records were pushed, sort, copy without near-duplicates, pair. These are the steps of
  \<open>clip_lines_to_polygon\<close>, inlined there on two vectors.
\<close>

definition clip_line ::
  "point list \<Rightarrow> nat \<Rightarrow> point \<Rightarrow> point \<Rightarrow> real \<Rightarrow> error + segment list" where
  "clip_line polygon polygon_len start end eps =
     (let intersections = collect_intersections polygon polygon_len start end eps
      in if length intersections < 2 then Inr []
         else if None \<in> set intersections then Inl NonFinite
         else Inr (pair_loop polygon polygon_len
                     (unique_loop (std_sort (map the intersections)) []) 0))"

section \<open>Clipping lines, on the scratch array\<close>

text \<open>
  \<open>clip_lines_to_polygon\<close> keeps the records of the current line in one array of
  \<open>polygon_len\<close> elements, allocated once and not initialised. A write at an index
  past the end of the array is the error \<open>OutOfBounds\<close>.
\<close>

definition store :: "'a list \<Rightarrow> nat \<Rightarrow> 'a \<Rightarrow> error + 'a list" where
  "store a i v = (if i < length a then Inr (a[i := v]) else Inl OutOfBounds)"

text \<open>The body of the loop over the edges: \<open>intersections[count++] = ip\<close>, with \<open>cnt\<close> for the
  variable \<open>count\<close>.\<close>

definition collect_step ::
  "point list \<Rightarrow> nat \<Rightarrow> point \<Rightarrow> point \<Rightarrow> real \<Rightarrow> nat \<Rightarrow> cell list \<times> nat
     \<Rightarrow> error + cell list \<times> nat" where
  "collect_step polygon polygon_len start end eps j s =
     (case s of (intersections, cnt) \<Rightarrow>
        (case edge_hit polygon polygon_len start end eps j of
           Miss \<Rightarrow> Inr (intersections, cnt)
         | Hit ip \<Rightarrow>
             (case store intersections cnt (Some ip) of
                Inl e \<Rightarrow> Inl e | Inr a \<Rightarrow> Inr (a, cnt + 1))
         | HitNaN \<Rightarrow>
             (case store intersections cnt None of
                Inl e \<Rightarrow> Inl e | Inr a \<Rightarrow> Inr (a, cnt + 1))))"

text \<open>\<open>std::sort(intersections, intersections + count, ...)\<close>.\<close>

definition sort_prefix :: "cell list \<Rightarrow> nat \<Rightarrow> cell list" where
  "sort_prefix intersections cnt =
     map Some (std_sort (map the (take cnt intersections))) @ drop cnt intersections"

text \<open>The body of the loop that removes near-duplicates in place.\<close>

definition dedupe_step :: "nat \<Rightarrow> cell list \<times> nat \<Rightarrow> error + cell list \<times> nat" where
  "dedupe_step j s =
     (case s of (intersections, unique_count) \<Rightarrow>
        if unique_count > 0 \<and>
           \<bar>ip_t (the (intersections ! j)) - ip_t (the (intersections ! (unique_count - 1)))\<bar>
             < 1 / 10 ^ 9
        then Inr (intersections, unique_count)
        else (case store intersections unique_count (intersections ! j) of
                Inl e \<Rightarrow> Inl e | Inr a \<Rightarrow> Inr (a, unique_count + 1)))"

function pair_loop_buf ::
  "point list \<Rightarrow> nat \<Rightarrow> cell list \<Rightarrow> nat \<Rightarrow> nat \<Rightarrow> segment list" where
  "pair_loop_buf polygon polygon_len intersections unique_count j =
     (if j + 1 < unique_count
      then (let x1 = ip_x (the (intersections ! j));
                y1 = ip_y (the (intersections ! j));
                x2 = ip_x (the (intersections ! (j + 1)));
                y2 = ip_y (the (intersections ! (j + 1)));
                mid_x = 0.5 * (x1 + x2);
                mid_y = 0.5 * (y1 + y2)
            in (if \<not> point_in_polygon mid_x mid_y polygon polygon_len then []
                else [((x1, y1), (x2, y2))])
               @ pair_loop_buf polygon polygon_len intersections unique_count (j + 2))
      else [])"
  by pat_completeness auto
termination
  by (relation "measure (\<lambda>(polygon, polygon_len, a, n, j). n - j)") auto

declare pair_loop_buf.simps [simp del]

text \<open>
  One iteration of the loop over the lines: the segments it appends to the result and
  the scratch array it leaves for the next line.
\<close>

definition process_line ::
  "point list \<Rightarrow> nat \<Rightarrow> point \<Rightarrow> point \<Rightarrow> real \<Rightarrow> cell list
     \<Rightarrow> error + segment list \<times> cell list" where
  "process_line polygon polygon_len start end eps intersections =
     (case for_each (collect_step polygon polygon_len start end eps) [0..<polygon_len]
             (intersections, 0) of
        Inl e \<Rightarrow> Inl e
      | Inr (a1, cnt) \<Rightarrow>
          if cnt < 2 then Inr ([], a1)
          else if None \<in> set (take cnt a1) then Inl NonFinite
          else (case for_each dedupe_step [0..<cnt] (sort_prefix a1 cnt, 0) of
                  Inl e \<Rightarrow> Inl e
                | Inr (a3, unique_count) \<Rightarrow>
                    Inr (pair_loop_buf polygon polygon_len a3 unique_count 0, a3)))"

definition line_step ::
  "point list \<Rightarrow> nat \<Rightarrow> point list \<Rightarrow> point list \<Rightarrow> real \<Rightarrow> nat
     \<Rightarrow> segment list \<times> cell list \<Rightarrow> error + segment list \<times> cell list" where
  "line_step polygon polygon_len line_starts line_ends eps i s =
     (case s of (result, intersections) \<Rightarrow>
        (case process_line polygon polygon_len (line_starts ! i) (line_ends ! i) eps
                intersections of
           Inl e \<Rightarrow> Inl e
         | Inr (segs, a) \<Rightarrow> Inr (result @ segs, a)))"

section \<open>Arguments\<close>

text \<open>
  The fields of \<open>Py_buffer\<close> the source reads. \<open>buf\<close> is the memory of the buffer
  read as rows of two doubles, which is how the source reads it once the checks of
  \<open>ensure_double_2d\<close> have passed.
\<close>

record Py_buffer =
  ndim :: nat
  shape :: "nat list"
  format :: "string option"
  buf :: "point list"

text \<open>
  An argument that is to export a buffer: \<open>PyObject_GetBuffer\<close> fails and leaves an
  exception pending, or fills in a view.
\<close>

datatype buffer_arg = NoBuffer py_exception | Buffer Py_buffer

definition ensure_double_2d :: "buffer_arg \<Rightarrow> string \<Rightarrow> error + Py_buffer" where
  "ensure_double_2d obj name =
     (case obj of
        NoBuffer e \<Rightarrow> Inl (Raised e)
      | Buffer view \<Rightarrow>
          if ndim view \<noteq> 2 then Inl (Raised (ValueError (name @ '' must be a 2D array'')))
          else if shape view ! 1 \<noteq> 2 then Inl (Raised (ValueError (name @ '' must have shape (N, 2)'')))
          else if format view = None \<or> the (format view) \<noteq> ''d''
               then Inl (Raised (TypeError (name @ '' must have dtype float64'')))
          else Inr view)"

text \<open>
  A point-like argument, by what \<open>PySequence_Fast(obj, nullptr)\<close> makes of it. For an
  object that cannot be iterated, the host replaces the pending \<open>TypeError\<close> by one
  whose message is the second argument, and reads that message through the null pointer
  passed here (\<open>NonIterable\<close>). Any other failure returns null with its exception
  pending (\<open>IterationRaised\<close>). Otherwise the items are those of a list or tuple
  (\<open>Sequence\<close>), each being what \<open>PyFloat_AsDouble\<close> makes of it, an exception or a
  double. The host never returns null with no exception pending, so the branch of the
  source that raises \<open>must be a sequence\<close> is never taken and has no equation here.
\<close>

datatype sequence_arg =
  NonIterable | IterationRaised py_exception | Sequence "(py_exception + real) list"

definition parse_point_like :: "sequence_arg \<Rightarrow> string \<Rightarrow> error + point" where
  "parse_point_like obj name =
     (case obj of
        NonIterable \<Rightarrow> Inl NullRead
      | IterationRaised e \<Rightarrow> Inl (Raised e)
      | Sequence items \<Rightarrow>
          if length items \<noteq> 2 then Inl (Raised (ValueError (name @ '' must have length 2'')))
          else (case items ! 0 of
                  Inl e \<Rightarrow> Inl (Raised e)
                | Inr x \<Rightarrow>
                    (case items ! 1 of Inl e \<Rightarrow> Inl (Raised e) | Inr y \<Rightarrow> Inr (x, y))))"

section \<open>The three operations\<close>

text \<open>
  \<open>clip_lines_to_polygon\<close>. \<open>garbage\<close> is what the freshly allocated scratch array
  holds.
\<close>

definition clip_lines_to_polygon ::
  "(nat \<Rightarrow> cell) \<Rightarrow> buffer_arg \<Rightarrow> buffer_arg \<Rightarrow> buffer_arg \<Rightarrow> real
     \<Rightarrow> error + segment list" where
  "clip_lines_to_polygon garbage polygon_obj line_starts_obj line_ends_obj eps =
     (case ensure_double_2d polygon_obj ''polygon'' of
        Inl e \<Rightarrow> Inl e
      | Inr poly_view \<Rightarrow>
     (case ensure_double_2d line_starts_obj ''line_starts'' of
        Inl e \<Rightarrow> Inl e
      | Inr start_view \<Rightarrow>
     (case ensure_double_2d line_ends_obj ''line_ends'' of
        Inl e \<Rightarrow> Inl e
      | Inr end_view \<Rightarrow>
          if shape start_view ! 0 \<noteq> shape end_view ! 0
          then Inl (Raised (ValueError ''line_starts and line_ends must have the same length''))
          else
            let polygon = buf poly_view;
                line_starts = buf start_view;
                line_ends = buf end_view;
                polygon_len = effective_polygon_length polygon (shape poly_view ! 0);
                num_lines = shape start_view ! 0
            in if polygon_len < 3 \<or> num_lines \<le> 0 then Inr []
               else (case for_each (line_step polygon polygon_len line_starts line_ends eps)
                            [0..<num_lines] ([], map garbage [0..<polygon_len]) of
                       Inl e \<Rightarrow> Inl e
                     | Inr (result, a) \<Rightarrow> Inr result))))"

definition kDegToRad :: real where
  "kDegToRad = 17453292519943295769236907684886 / 10 ^ 33"

definition hypot :: "real \<Rightarrow> real \<Rightarrow> real" where
  "hypot a b = sqrt (a * a + b * b)"

text \<open>\<open>static_cast<Py_ssize_t>\<close> of a double: the fraction is dropped.\<close>

definition trunc_int :: "real \<Rightarrow> int" where
  "trunc_int r = (if 0 \<le> r then \<lfloor>r\<rfloor> else \<lceil>r\<rceil>)"

definition centroid_mean :: "point list \<Rightarrow> nat \<Rightarrow> point" where
  "centroid_mean polygon polygon_len =
     (let s = fold (\<lambda>i c. (fst c + fst (polygon ! i), snd c + snd (polygon ! i)))
                [0..<polygon_len] (0, 0)
      in (fst s / real polygon_len, snd s / real polygon_len))"

text \<open>The state of the bounding-box loop is \<open>(min_x, max_x, min_y, max_y)\<close>.\<close>

definition bbox_step :: "point list \<Rightarrow> nat \<Rightarrow> real \<times> real \<times> real \<times> real \<Rightarrow> real \<times> real \<times> real \<times> real" where
  "bbox_step polygon i s =
     (case s of (min_x, max_x, min_y, max_y) \<Rightarrow>
        let x = fst (polygon ! i); y = snd (polygon ! i)
        in (if x < min_x then x else min_x, if x > max_x then x else max_x,
            if y < min_y then y else min_y, if y > max_y then y else max_y))"

definition bbox_diagonal :: "point list \<Rightarrow> nat \<Rightarrow> real" where
  "bbox_diagonal polygon polygon_len =
     (case fold (bbox_step polygon) [1..<polygon_len]
             (fst (polygon ! 0), fst (polygon ! 0), snd (polygon ! 0), snd (polygon ! 0)) of
        (min_x, max_x, min_y, max_y) \<Rightarrow> hypot (max_x - min_x) (max_y - min_y))"

text \<open>The query line of offset index \<open>idx\<close>.\<close>

definition fill_line ::
  "point \<Rightarrow> real \<Rightarrow> real \<Rightarrow> real \<Rightarrow> real \<Rightarrow> int \<Rightarrow> point \<times> point" where
  "fill_line centroid bbox_diag overshoot spacing angle_deg idx =
     (let radians = angle_deg * kDegToRad;
          line_dir_x = cos radians;
          line_dir_y = sin radians;
          perp_x = - line_dir_y;
          perp_y = line_dir_x;
          span_scale = bbox_diag * overshoot;
          span_x = line_dir_x * span_scale;
          span_y = line_dir_y * span_scale;
          start_base_x = fst centroid - span_x;
          start_base_y = snd centroid - span_y;
          end_base_x = fst centroid + span_x;
          end_base_y = snd centroid + span_y;
          offset = real_of_int idx * spacing
      in ((start_base_x + offset * perp_x, start_base_y + offset * perp_y),
          (end_base_x + offset * perp_x, end_base_y + offset * perp_y)))"

definition fill_step ::
  "point list \<Rightarrow> nat \<Rightarrow> point \<Rightarrow> real \<Rightarrow> real \<Rightarrow> real \<Rightarrow> real \<Rightarrow> int
     \<Rightarrow> segment list \<Rightarrow> error + segment list" where
  "fill_step polygon polygon_len centroid bbox_diag overshoot spacing angle_deg idx segments =
     (case fill_line centroid bbox_diag overshoot spacing angle_deg idx of
        (start, end) \<Rightarrow>
          (case clip_line polygon polygon_len start end (1 / 10 ^ 10) of
             Inl e \<Rightarrow> Inl e
           | Inr segs \<Rightarrow> Inr (segments @ segs)))"

definition generate_line_fill ::
  "buffer_arg \<Rightarrow> real \<Rightarrow> real \<Rightarrow> sequence_arg option \<Rightarrow> (py_exception + real) option
     \<Rightarrow> real
     \<Rightarrow> error + segment list" where
  "generate_line_fill polygon_obj spacing angle_deg centroid_obj bbox_obj overshoot0 =
     (if spacing \<le> 0 then Inl (Raised (ValueError ''spacing must be positive''))
      else
        let overshoot = (if overshoot0 \<le> 0 then 2 else overshoot0)
        in case ensure_double_2d polygon_obj ''polygon'' of
             Inl e \<Rightarrow> Inl e
           | Inr poly_view \<Rightarrow>
               let polygon = buf poly_view;
                   polygon_len = effective_polygon_length polygon (shape poly_view ! 0)
               in if polygon_len < 3 then Inr []
                  else
                    case (case centroid_obj of
                            Some obj \<Rightarrow> parse_point_like obj ''centroid''
                          | None \<Rightarrow> Inr (centroid_mean polygon polygon_len)) of
                      Inl e \<Rightarrow> Inl e
                    | Inr centroid \<Rightarrow>
                        case (case bbox_obj of Some r \<Rightarrow> r | None \<Rightarrow> Inr 0) of
                          Inl e \<Rightarrow> Inl (Raised e)
                        | Inr bbox0 \<Rightarrow>
                            let bbox_diag = (if bbox0 \<le> 0 then bbox_diagonal polygon polygon_len
                                             else bbox0)
                            in if bbox_diag \<le> 0 then Inr []
                               else
                                 let safe_spacing = (if spacing < 1 / 10 ^ 6 then 1 / 10 ^ 6
                                                     else spacing);
                                     num_lines = trunc_int (bbox_diag / safe_spacing) + 3
                                 in if num_lines > 2 ^ 63 - 1 then Inl IntOverflow
                                    else for_each
                                           (fill_step polygon polygon_len centroid bbox_diag
                                              overshoot spacing angle_deg)
                                           [- num_lines..num_lines] [])"

text \<open>
  A result of \<open>PyComplex_FromDoubles\<close>: a complex number with finite parts, or the
  one with both parts NaN.
\<close>

datatype py_complex = PyComplex real real | PyComplexNaN

text \<open>
  \<open>circle_circle_intersections\<close>. With \<open>d = 0\<close> past the first test, \<open>a\<close> is a
  quotient by zero: an infinity makes \<open>h_sq\<close> minus infinity, which is below
  \<open>-tol\<close>; a NaN makes \<open>h_sq\<close>, the midpoint and the first point NaN, \<open>h\<close> stays
  0, and the second point, NaN as well, is appended when \<open>0 > tol\<close>.
\<close>

definition circle_circle_intersections ::
  "real \<Rightarrow> real \<Rightarrow> real \<Rightarrow> real \<Rightarrow> real \<Rightarrow> real \<Rightarrow> real \<Rightarrow> py_complex list" where
  "circle_circle_intersections cx1 cy1 r1 cx2 cy2 r2 tol =
     (let dx = cx2 - cx1;
          dy = cy2 - cy1;
          d = hypot dx dy;
          sum_r = r1 + r2;
          diff_r = \<bar>r1 - r2\<bar>
      in if d > sum_r + tol \<or> d < diff_r - tol \<or> d < tol then []
         else if 2 * d = 0
              then (if r1 * r1 - r2 * r2 + d * d \<noteq> 0 then []
                    else PyComplexNaN # (if 0 > tol then [PyComplexNaN] else []))
         else
           let a = (r1 * r1 - r2 * r2 + d * d) / (2 * d);
               h_sq = r1 * r1 - a * a
           in if h_sq < - tol then []
              else
                let h = (if h_sq > 0 then sqrt (max h_sq 0) else 0);
                    mid_x = cx1 + a * dx / d;
                    mid_y = cy1 + a * dy / d;
                    rx = - dy / d;
                    ry = dx / d;
                    p1x = mid_x + h * rx;
                    p1y = mid_y + h * ry
                in PyComplex p1x p1y
                   # (if h > tol
                      then [PyComplex (mid_x - h * rx) (mid_y - h * ry)]
                      else []))"

section \<open>Notions used to state the properties\<close>

text \<open>
  A view fails the checks of \<open>ensure_double_2d\<close> when it is not two-dimensional, its
  second dimension is not 2, or its element format is not \<open>d\<close>; \<open>complaint\<close> is
  the exception raised for it, whose message starts with the parameter's name.
\<close>

definition bad_view :: "Py_buffer \<Rightarrow> bool" where
  "bad_view v = (ndim v \<noteq> 2 \<or> shape v ! 1 \<noteq> 2 \<or> format v \<noteq> Some ''d'')"

definition complaint :: "string \<Rightarrow> Py_buffer \<Rightarrow> error" where
  "complaint name v =
     (if ndim v \<noteq> 2 then Raised (ValueError (name @ '' must be a 2D array''))
      else if shape v ! 1 \<noteq> 2 then Raised (ValueError (name @ '' must have shape (N, 2)''))
      else Raised (TypeError (name @ '' must have dtype float64'')))"

text \<open>The view a C-contiguous float64 array of the given rows exports.\<close>

definition view_of :: "point list \<Rightarrow> Py_buffer" where
  "view_of rows = \<lparr>ndim = 2, shape = [length rows, 2], format = Some ''d'', buf = rows\<rparr>"

text \<open>
  The pairs (vertex \<open>i\<close>, vertex \<open>j\<close>) that the loop of \<open>point_in_polygon\<close> visits
  for a vertex list of its full length, and those of them whose edge the ray crosses.
\<close>

definition prev_pairs :: "point list \<Rightarrow> (point \<times> point) list" where
  "prev_pairs ps =
     map (\<lambda>i. (ps ! i, ps ! ((i + (length ps - 1)) mod length ps))) [0..<length ps]"

definition crossing_edges :: "real \<Rightarrow> real \<Rightarrow> point list \<Rightarrow> (point \<times> point) list" where
  "crossing_edges x y ps = filter (\<lambda>e. edge_crosses x y (fst e) (snd e)) (prev_pairs ps)"

text \<open>
  The cells one edge contributes to the record array: none, one record, or the NaN
  record.
\<close>

definition hit_cells :: "hit \<Rightarrow> cell list" where
  "hit_cells h = (case h of Miss \<Rightarrow> [] | Hit ip \<Rightarrow> [Some ip] | HitNaN \<Rightarrow> [None])"

text \<open>
  The steps of the clipping of one line, as the specification words them: a record is
  dropped when its \<open>t\<close> is within \<open>1e-9\<close> of the \<open>t\<close> of the record kept last;
  the records kept are paired \<open>(0, 1), (2, 3), ...\<close>, an odd one at the end being
  dropped; a pair is emitted when its midpoint passes the point-in-polygon test.
\<close>

fun collapse_from :: "real \<Rightarrow> IntersectionPoint list \<Rightarrow> IntersectionPoint list" where
  "collapse_from kept [] = []"
| "collapse_from kept (r # rs) =
     (if \<bar>ip_t r - kept\<bar> < 1 / 10 ^ 9 then collapse_from kept rs
      else r # collapse_from (ip_t r) rs)"

fun collapse :: "IntersectionPoint list \<Rightarrow> IntersectionPoint list" where
  "collapse [] = []"
| "collapse (r # rs) = r # collapse_from (ip_t r) rs"

fun pairs :: "'a list \<Rightarrow> ('a \<times> 'a) list" where
  "pairs (a # b # rest) = (a, b) # pairs rest"
| "pairs [a] = []"
| "pairs [] = []"

definition midpoint_inside ::
  "point list \<Rightarrow> nat \<Rightarrow> IntersectionPoint \<times> IntersectionPoint \<Rightarrow> bool" where
  "midpoint_inside polygon polygon_len pr =
     point_in_polygon (0.5 * (ip_x (fst pr) + ip_x (snd pr)))
       (0.5 * (ip_y (fst pr) + ip_y (snd pr))) polygon polygon_len"

definition endpoints :: "IntersectionPoint \<times> IntersectionPoint \<Rightarrow> segment" where
  "endpoints pr = ((ip_x (fst pr), ip_y (fst pr)), (ip_x (snd pr), ip_y (snd pr)))"

definition kept_pairs ::
  "point list \<Rightarrow> nat \<Rightarrow> IntersectionPoint list
     \<Rightarrow> (IntersectionPoint \<times> IntersectionPoint) list" where
  "kept_pairs polygon polygon_len recs =
     filter (midpoint_inside polygon polygon_len) (pairs (collapse (sort_key ip_t recs)))"


text \<open>The polygons of the examples.\<close>

definition unit_square :: "point list" where
  "unit_square = [(0, 0), (1, 0), (1, 1), (0, 1)]"


section \<open>Segment-segment intersection\<close>

lemma compute_parallel:
  "\<bar>denom_of p1 p2 p3 p4\<bar> < eps \<Longrightarrow> compute_line_segment_intersection p1 p2 p3 p4 eps = Miss"
  by (simp add: compute_line_segment_intersection_def denom_of_def Let_def)

lemma compute_regular:
  assumes "\<not> \<bar>denom_of p1 p2 p3 p4\<bar> < eps" and "denom_of p1 p2 p3 p4 \<noteq> 0"
  shows "compute_line_segment_intersection p1 p2 p3 p4 eps =
           (if in_range eps (t_of p1 p2 p3 p4) \<and> in_range eps (u_of p1 p2 p3 p4)
            then Hit (record_at p1 p2 (t_of p1 p2 p3 p4)) else Miss)"
  using assms
  by (auto simp add: compute_line_segment_intersection_def denom_of_def t_of_def u_of_def
      in_range_def record_at_def along_def Let_def)

text \<open>
  Claim C3. The claim has the primitive accept an intersection only when \<open>t\<close> and
  \<open>u\<close> lie in \<open>[-eps, 1 + eps]\<close>, for every \<open>eps\<close>. The source rejects by the four
  comparisons \<open>t < -eps\<close>, \<open>t > 1 + eps\<close>, \<open>u < -eps\<close>, \<open>u > 1 + eps\<close>, which are
  all false for a NaN, and its guard \<open>fabs(denom) < eps\<close> lets \<open>denom = 0\<close> through
  when \<open>eps\<close> is 0. For the segment from \<open>(0, 0)\<close> to \<open>(1, 0)\<close> against itself and
  \<open>eps = 0\<close>: \<open>denom\<close> is 0 and not below \<open>eps\<close>, both numerators are 0, \<open>t\<close> and
  \<open>u\<close> are 0 / 0, and the primitive returns 1 with \<open>t\<close> and the point NaN, where the
  claim has it return no intersection.
\<close>

theorem segment_intersection_nan_accepted:
  "\<not> \<bar>denom_of (0, 0) (1, 0) (0, 0) (1, 0)\<bar> < 0
   \<and> compute_line_segment_intersection (0, 0) (1, 0) (0, 0) (1, 0) 0 = HitNaN"
  by (simp add: denom_of_def compute_line_segment_intersection_def)

section \<open>Circle-circle intersection\<close>

text \<open>
  Claim C4. The claim has two identical circles give the empty list by the test
  \<open>d < tol\<close>, for every \<open>tol\<close>. With \<open>tol = 0\<close> that test is \<open>0 < 0\<close>: for the
  circle of centre \<open>(0, 0)\<close> and radius 1 against itself none of the three tests of the
  first line holds, \<open>a\<close> is 0 / 0, \<open>h_sq\<close> is NaN and passes \<open>h_sq < -tol\<close>, and the
  function returns a list of one point whose two parts are NaN.
\<close>

theorem circle_identical_nan_point:
  "circle_circle_intersections 0 0 1 0 0 1 0 = [PyComplexNaN]"
  by (simp add: circle_circle_intersections_def hypot_def)

section \<open>Argument checks and degenerate inputs\<close>

lemma ensure_bad: "bad_view v \<Longrightarrow> ensure_double_2d (Buffer v) name = Inl (complaint name v)"
  by (auto simp add: bad_view_def complaint_def ensure_double_2d_def)

lemma ensure_good: "\<not> bad_view v \<Longrightarrow> ensure_double_2d (Buffer v) name = Inr v"
  by (auto simp add: bad_view_def ensure_double_2d_def)

text \<open>
  Claim C5. When the three buffers pass the checks and have as many start rows as end
  rows, \<open>clip_lines_to_polygon\<close> returns the empty list, and raises nothing, if the
  effective length of the polygon is below 3 or there is no line.
\<close>

theorem degenerate_inputs_empty:
  assumes "\<not> bad_view pv" and "\<not> bad_view sv" and "\<not> bad_view ev"
    and "shape sv ! 0 = shape ev ! 0"
    and "effective_polygon_length (buf pv) (shape pv ! 0) < 3 \<or> shape sv ! 0 = 0"
  shows "clip_lines_to_polygon garbage (Buffer pv) (Buffer sv) (Buffer ev) eps = Inr []"
  using assms by (auto simp add: clip_lines_to_polygon_def ensure_good Let_def)

theorem degenerate_inputs_empty_witness:
  "clip_lines_to_polygon (\<lambda>i. None) (Buffer (view_of [(0, 0), (1, 1), (0, 0)]))
      (Buffer (view_of [(0, 0)])) (Buffer (view_of [(1, 1)])) (1 / 10 ^ 10) = Inr []
   \<and> clip_lines_to_polygon (\<lambda>i. None) (Buffer (view_of [(0, 0), (1, 0), (1, 1)]))
      (Buffer (view_of [])) (Buffer (view_of [])) (1 / 10 ^ 10) = Inr []"
  using degenerate_inputs_empty [where pv = "view_of [(0, 0), (1, 1), (0, 0)]"
      and sv = "view_of [(0, 0)]" and ev = "view_of [(1, 1)]" and garbage = "\<lambda>i. None"
      and eps = "1 / 10 ^ 10"]
    degenerate_inputs_empty [where pv = "view_of [(0, 0), (1, 0), (1, 1)]"
      and sv = "view_of []" and ev = "view_of []" and garbage = "\<lambda>i. None"
      and eps = "1 / 10 ^ 10"]
  by (simp add: view_of_def bad_view_def effective_polygon_length_def)

text \<open>
  Claim C6, as amended. \<open>clip_lines_to_polygon\<close> raises the complaint of the first of
  \<open>polygon\<close>, \<open>line_starts\<close>, \<open>line_ends\<close> whose view fails the checks, and a
  \<open>ValueError\<close> naming both line arrays when their lengths differ.
  \<open>generate_line_fill\<close> raises \<open>spacing must be positive\<close> for a spacing that is
  not positive, then the complaint of a polygon view that fails the checks; a centroid
  that is a sequence of another length than 2 is reported by name when the polygon has
  an effective length of 3 or more. No case returns a list.
\<close>

theorem contract_violations:
  "(bad_view pv \<longrightarrow>
      clip_lines_to_polygon garbage (Buffer pv) starts ends eps = Inl (complaint ''polygon'' pv))
   \<and> (\<not> bad_view pv \<and> bad_view sv \<longrightarrow>
      clip_lines_to_polygon garbage (Buffer pv) (Buffer sv) ends eps
        = Inl (complaint ''line_starts'' sv))
   \<and> (\<not> bad_view pv \<and> \<not> bad_view sv \<and> bad_view ev \<longrightarrow>
      clip_lines_to_polygon garbage (Buffer pv) (Buffer sv) (Buffer ev) eps
        = Inl (complaint ''line_ends'' ev))
   \<and> (\<not> bad_view pv \<and> \<not> bad_view sv \<and> \<not> bad_view ev \<and> shape sv ! 0 \<noteq> shape ev ! 0 \<longrightarrow>
      clip_lines_to_polygon garbage (Buffer pv) (Buffer sv) (Buffer ev) eps
        = Inl (Raised (ValueError ''line_starts and line_ends must have the same length'')))
   \<and> (spacing \<le> 0 \<longrightarrow>
      generate_line_fill polygon_obj spacing angle centroid bbox overshoot
        = Inl (Raised (ValueError ''spacing must be positive'')))
   \<and> (0 < spacing \<and> bad_view pv \<longrightarrow>
      generate_line_fill (Buffer pv) spacing angle centroid bbox overshoot
        = Inl (complaint ''polygon'' pv))
   \<and> (0 < spacing \<and> \<not> bad_view pv \<and> 3 \<le> effective_polygon_length (buf pv) (shape pv ! 0)
        \<and> length items \<noteq> 2 \<longrightarrow>
      generate_line_fill (Buffer pv) spacing angle (Some (Sequence items)) bbox overshoot
        = Inl (Raised (ValueError ''centroid must have length 2'')))"
  by (auto simp add: clip_lines_to_polygon_def generate_line_fill_def ensure_bad ensure_good
      parse_point_like_def Let_def)

theorem contract_violations_witness:
  "clip_lines_to_polygon (\<lambda>i. None)
      (Buffer \<lparr>ndim = 1, shape = [4], format = Some ''d'', buf = []\<rparr>)
      (Buffer (view_of [])) (Buffer (view_of [])) (1 / 10 ^ 10)
     = Inl (Raised (ValueError ''polygon must be a 2D array''))
   \<and> clip_lines_to_polygon (\<lambda>i. None) (Buffer (view_of [(0, 0), (1, 0), (1, 1)]))
      (Buffer \<lparr>ndim = 2, shape = [1, 3], format = Some ''d'', buf = []\<rparr>)
      (Buffer (view_of [])) (1 / 10 ^ 10)
     = Inl (Raised (ValueError ''line_starts must have shape (N, 2)''))
   \<and> clip_lines_to_polygon (\<lambda>i. None) (Buffer (view_of [(0, 0), (1, 0), (1, 1)]))
      (Buffer (view_of [(0, 0)]))
      (Buffer \<lparr>ndim = 2, shape = [1, 2], format = Some ''f'', buf = []\<rparr>) (1 / 10 ^ 10)
     = Inl (Raised (TypeError ''line_ends must have dtype float64''))
   \<and> clip_lines_to_polygon (\<lambda>i. None) (Buffer (view_of [(0, 0), (1, 0), (1, 1)]))
      (Buffer (view_of [(0, 0)])) (Buffer (view_of [])) (1 / 10 ^ 10)
     = Inl (Raised (ValueError ''line_starts and line_ends must have the same length''))
   \<and> generate_line_fill (Buffer (view_of [(0, 0), (1, 0), (1, 1)])) 0 0 None None 2
     = Inl (Raised (ValueError ''spacing must be positive''))
   \<and> generate_line_fill (Buffer \<lparr>ndim = 2, shape = [3, 2], format = None, buf = []\<rparr>)
        1 0 None None 2
     = Inl (Raised (TypeError ''polygon must have dtype float64''))
   \<and> generate_line_fill (Buffer (view_of [(0, 0), (1, 0), (1, 1)])) 1 0
        (Some (Sequence [Inr 0, Inr 0, Inr 0])) None 2
     = Inl (Raised (ValueError ''centroid must have length 2''))"
  using
    contract_violations [where pv = "\<lparr>ndim = 1, shape = [4], format = Some ''d'', buf = []\<rparr>"
      and garbage = "\<lambda>i. None" and starts = "Buffer (view_of [])"
      and ends = "Buffer (view_of [])" and eps = "1 / 10 ^ 10"]
    contract_violations [where pv = "view_of [(0, 0), (1, 0), (1, 1)]"
      and sv = "\<lparr>ndim = 2, shape = [1, 3], format = Some ''d'', buf = []\<rparr>"
      and garbage = "\<lambda>i. None" and ends = "Buffer (view_of [])" and eps = "1 / 10 ^ 10"]
    contract_violations [where pv = "view_of [(0, 0), (1, 0), (1, 1)]"
      and sv = "view_of [(0, 0)]"
      and ev = "\<lparr>ndim = 2, shape = [1, 2], format = Some ''f'', buf = []\<rparr>"
      and garbage = "\<lambda>i. None" and eps = "1 / 10 ^ 10"]
    contract_violations [where pv = "view_of [(0, 0), (1, 0), (1, 1)]"
      and sv = "view_of [(0, 0)]" and ev = "view_of []"
      and garbage = "\<lambda>i. None" and eps = "1 / 10 ^ 10"]
    contract_violations [where spacing = 0 and angle = 0 and centroid = None and bbox = None
      and overshoot = 2 and polygon_obj = "Buffer (view_of [(0, 0), (1, 0), (1, 1)])"]
    contract_violations [where spacing = 1 and angle = 0 and centroid = None and bbox = None
      and overshoot = 2
      and pv = "\<lparr>ndim = 2, shape = [3, 2], format = None, buf = []\<rparr>"]
    contract_violations [where spacing = 1 and angle = 0 and bbox = None and overshoot = 2
      and pv = "view_of [(0, 0), (1, 0), (1, 1)]" and items = "[Inr 0, Inr 0, Inr 0]"]
  by (simp_all add: bad_view_def complaint_def view_of_def effective_polygon_length_def)

text \<open>
  A polygon of two vertices and a centroid of three items: the degenerate polygon is
  answered with the empty list before the centroid is parsed, and nothing is raised.
\<close>

theorem centroid_unchecked_counterexample:
  "generate_line_fill (Buffer (view_of [(0, 0), (1, 1)])) 1 0
     (Some (Sequence [Inr 0, Inr 0, Inr 0])) None 2 = Inr []"
  by (simp add: generate_line_fill_def ensure_double_2d_def view_of_def
      effective_polygon_length_def)

section \<open>Point in polygon\<close>

lemma tiny_bounds: "0 < tiny" "tiny < 1"
  by (simp_all add: tiny_def)

lemma edge_crosses_vertical:
  "edge_crosses x y (a, yi) (a, yj) = (((yi > y) \<noteq> (yj > y)) \<and> yj - yi + tiny \<noteq> 0 \<and> x < a)"
  by (auto simp add: edge_crosses_def)

lemma edge_crosses_level:
  "edge_crosses x y (xi, b) (xj, b) = False"
  by (auto simp add: edge_crosses_def)

lemma pip_loop_tail:
  "0 < i \<Longrightarrow> i \<le> n \<Longrightarrow>
   pip_loop x y poly n i (i - 1) inside =
     (inside \<noteq> odd (length (filter (\<lambda>k. edge_crosses x y (poly ! k) (poly ! (k - 1))) [i..<n])))"
proof (induction "n - i" arbitrary: i inside)
  case 0
  then show ?case by (simp add: pip_loop.simps)
next
  case (Suc m)
  then have lt: "i < n" by simp
  have step: "pip_loop x y poly n i (i - 1) inside =
      pip_loop x y poly n (i + 1) i
        (if edge_crosses x y (poly ! i) (poly ! (i - 1)) then \<not> inside else inside)"
    using lt by (subst pip_loop.simps) simp
  have ih: "pip_loop x y poly n (i + 1) i b =
      (b \<noteq> odd (length (filter (\<lambda>k. edge_crosses x y (poly ! k) (poly ! (k - 1))) [i + 1..<n])))"
    for b
    using Suc.hyps(1) [of "i + 1" b] Suc.hyps(2) lt by simp
  have split: "[i..<n] = i # [i + 1..<n]"
    using lt by (simp add: upt_conv_Cons)
  show ?case
    unfolding step ih split by auto
qed

lemma pip_loop_all:
  assumes "0 < n"
  shows "pip_loop x y poly n 0 (n - 1) False =
     odd (length (filter (\<lambda>k. edge_crosses x y (poly ! k) (poly ! ((k + (n - 1)) mod n))) [0..<n]))"
proof -
  have first: "pip_loop x y poly n 0 (n - 1) False =
      pip_loop x y poly n 1 0 (edge_crosses x y (poly ! 0) (poly ! (n - 1)))"
    using assms by (subst pip_loop.simps) simp
  have tail: "pip_loop x y poly n 1 0 b =
      (b \<noteq> odd (length (filter (\<lambda>k. edge_crosses x y (poly ! k) (poly ! (k - 1))) [1..<n])))"
    for b
    using pip_loop_tail [of 1 n x y poly b] assms by simp
  have same: "filter (\<lambda>k. edge_crosses x y (poly ! k) (poly ! ((k + (n - 1)) mod n))) [1..<n]
      = filter (\<lambda>k. edge_crosses x y (poly ! k) (poly ! (k - 1))) [1..<n]"
  proof (rule filter_cong [OF refl])
    fix k assume "k \<in> set [1..<n]"
    then have k: "1 \<le> k" "k < n" by auto
    then have "k + (n - 1) = (k - 1) + n" by simp
    then have "(k + (n - 1)) mod n = (k - 1) mod n" by (simp only: mod_add_self2)
    then have "(k + (n - 1)) mod n = k - 1" using k by simp
    then show "edge_crosses x y (poly ! k) (poly ! ((k + (n - 1)) mod n))
        = edge_crosses x y (poly ! k) (poly ! (k - 1))" by simp
  qed
  have split: "[0..<n] = 0 # [1..<n]"
    using assms by (simp add: upt_conv_Cons)
  have zero: "(0 + (n - 1)) mod n = n - 1" using assms by simp
  show ?thesis
    unfolding first tail split using same zero by auto
qed

lemma point_in_polygon_crossings:
  assumes "length ps = n" and "3 \<le> n"
  shows "point_in_polygon x y ps n = odd (length (crossing_edges x y ps))"
proof -
  have "point_in_polygon x y ps n = pip_loop x y ps n 0 (n - 1) False"
    using assms by (simp add: point_in_polygon_def)
  also have "\<dots> = odd (length (filter (\<lambda>k. edge_crosses x y (ps ! k) (ps ! ((k + (n - 1)) mod n))) [0..<n]))"
    using assms by (intro pip_loop_all) simp
  also have "\<dots> = odd (length (crossing_edges x y ps))"
    using assms by (simp add: crossing_edges_def prev_pairs_def filter_map comp_def)
  finally show ?thesis .
qed

lemma prev_pairs_rotate: "prev_pairs (rotate m ps) = rotate m (prev_pairs ps)"
proof (cases "ps = []")
  case True
  then show ?thesis by (simp add: prev_pairs_def)
next
  case False
  define n where "n = length ps"
  have n: "0 < n" using False by (simp add: n_def)
  have len: "length (prev_pairs qs) = length qs" for qs
    by (simp add: prev_pairs_def)
  show ?thesis
  proof (rule nth_equalityI)
    show "length (prev_pairs (rotate m ps)) = length (rotate m (prev_pairs ps))"
      by (simp add: len)
  next
    fix i assume "i < length (prev_pairs (rotate m ps))"
    then have i: "i < n" by (simp add: len n_def)
    have a: "(m + (i + (n - 1)) mod n) mod n = ((m + i) mod n + (n - 1)) mod n"
      by (simp add: mod_simps ac_simps)
    have lhs: "prev_pairs (rotate m ps) ! i
        = (ps ! ((m + i) mod n), ps ! ((m + (i + (n - 1)) mod n) mod n))"
      using i n by (simp add: prev_pairs_def nth_rotate n_def)
    have rhs: "rotate m (prev_pairs ps) ! i = prev_pairs ps ! ((m + i) mod n)"
      using i by (simp add: nth_rotate len n_def)
    also have "\<dots> = (ps ! ((m + i) mod n), ps ! (((m + i) mod n + (n - 1)) mod n))"
      using n by (simp add: prev_pairs_def n_def)
    finally show "prev_pairs (rotate m ps) ! i = rotate m (prev_pairs ps) ! i"
      using lhs a by simp
  qed
qed

lemma mset_rotate_eq: "mset (rotate m xs) = mset xs"
proof -
  have "mset (drop k xs @ take k xs) = mset (take k xs @ drop k xs)" for k
    by (simp only: mset_append union_commute)
  then show ?thesis by (simp only: rotate_drop_take append_take_drop_id)
qed

lemma crossing_edges_rotate:
  "length (crossing_edges x y (rotate m ps)) = length (crossing_edges x y ps)"
proof -
  have "mset (crossing_edges x y (rotate m ps)) = mset (crossing_edges x y ps)"
    by (simp add: crossing_edges_def prev_pairs_rotate mset_rotate_eq)
  then show ?thesis by (metis size_mset)
qed

text \<open>
  Claim C8. For a vertex list \<open>ps\<close> of length \<open>n\<close> (the effective vertices of the
  ring), the even-odd test gives the same answer for every query point when the list
  is rotated to start at any other vertex.
\<close>

theorem point_in_polygon_rotation:
  assumes "length ps = n"
  shows "point_in_polygon x y (rotate k ps) n = point_in_polygon x y ps n"
proof (cases "3 \<le> n")
  case True
  then show ?thesis
    using assms by (simp add: point_in_polygon_crossings crossing_edges_rotate)
next
  case False
  then show ?thesis by (simp add: point_in_polygon_def)
qed

theorem point_in_polygon_rotation_witness:
  "point_in_polygon (1/2) (1/2) (rotate 1 [(0, 0), (1, 0), (1, 1), (0, 1)]) 4
     = point_in_polygon (1/2) (1/2) [(0, 0), (1, 0), (1, 1), (0, 1)] 4
   \<and> point_in_polygon (1/2) (1/2) [(0, 0), (1, 0), (1, 1), (0, 1)] 4"
  using point_in_polygon_rotation [of "[(0, 0), (1, 0), (1, 1), (0, 1)]" 4 "1/2" "1/2" 1]
    tiny_bounds
  by (simp add: point_in_polygon_def pip_loop.simps edge_crosses_vertical edge_crosses_level)

section \<open>The loop over the edges\<close>

lemma for_each_append:
  "for_each body (xs @ ys) s =
     (case for_each body xs s of Inl e \<Rightarrow> Inl e | Inr s' \<Rightarrow> for_each body ys s')"
  by (induction xs arbitrary: s) (auto split: sum.splits)

lemma push_hit_cells: "push_hit h v = v @ hit_cells h"
  by (cases h) (simp_all add: push_hit_def hit_cells_def)

lemma fold_push_hit:
  "fold (\<lambda>j v. push_hit (g j) v) js acc = acc @ concat (map (\<lambda>j. hit_cells (g j)) js)"
  by (induction js arbitrary: acc) (simp_all add: push_hit_cells)

lemma collect_intersections_concat:
  "collect_intersections polygon n start end eps =
     concat (map (\<lambda>j. hit_cells (edge_hit polygon n start end eps j)) [0..<n])"
  by (simp add: collect_intersections_def fold_push_hit)

lemma hit_cells_length: "length (hit_cells h) \<le> 1"
  by (cases h) (simp_all add: hit_cells_def)

lemma collected_length:
  "length (concat (map (\<lambda>j. hit_cells (g j)) [0..<m])) \<le> m"
proof (induction m)
  case 0
  then show ?case by simp
next
  case (Suc m)
  have "length (hit_cells (g m)) \<le> 1" by (rule hit_cells_length)
  with Suc show ?case by simp
qed

lemma store_at_end:
  assumes "length xs < length a"
  shows "store (xs @ drop (length xs) a) (length xs) v
           = Inr ((xs @ [v]) @ drop (length (xs @ [v])) a)"
proof -
  have "drop (length xs) a = a ! length xs # drop (Suc (length xs)) a"
    using assms by (simp add: Cons_nth_drop_Suc)
  then have "(xs @ drop (length xs) a)[length xs := v] = xs @ v # drop (Suc (length xs)) a"
    by (simp add: list_update_append)
  then show ?thesis
    using assms by (simp add: store_def)
qed

lemma collect_step_cells:
  assumes "length xs < length a"
  shows "collect_step polygon n start end eps j (xs @ drop (length xs) a, length xs) =
           (let ys = xs @ hit_cells (edge_hit polygon n start end eps j)
            in Inr (ys @ drop (length ys) a, length ys))"
proof (cases "edge_hit polygon n start end eps j")
  case Miss
  then show ?thesis by (simp add: collect_step_def hit_cells_def)
next
  case (Hit ip)
  then show ?thesis
    using store_at_end [OF assms, of "Some ip"]
    by (simp add: collect_step_def hit_cells_def)
next
  case HitNaN
  then show ?thesis
    using store_at_end [OF assms, of None]
    by (simp add: collect_step_def hit_cells_def)
qed

lemma collect_loop_cells:
  assumes "m \<le> length a"
  shows "for_each (collect_step polygon n start end eps) [0..<m] (a, 0) =
           (let ys = concat (map (\<lambda>j. hit_cells (edge_hit polygon n start end eps j)) [0..<m])
            in Inr (ys @ drop (length ys) a, length ys))"
  using assms
proof (induction m)
  case 0
  then show ?case by simp
next
  case (Suc m)
  define ys where
    "ys = concat (map (\<lambda>j. hit_cells (edge_hit polygon n start end eps j)) [0..<m])"
  have len: "length ys < length a"
    using collected_length [of "edge_hit polygon n start end eps" m] Suc.prems
    by (simp add: ys_def)
  have ih: "for_each (collect_step polygon n start end eps) [0..<m] (a, 0)
              = Inr (ys @ drop (length ys) a, length ys)"
    using Suc by (simp add: ys_def Let_def)
  show ?case
    using collect_step_cells [OF len, of polygon n start "end" eps m]
    by (simp add: for_each_append ih Let_def ys_def)
qed

section \<open>The scratch array holds the vectors\<close>

lemma sort_prefix_cells:
  "sort_prefix (cs @ rest) (length cs) = map Some (std_sort (map the cs)) @ rest"
  by (simp add: sort_prefix_def)

lemma unique_loop_snoc:
  "unique_loop (xs @ [x]) acc =
     (let u = unique_loop xs acc
      in if u \<noteq> [] \<and> \<bar>ip_t x - ip_t (last u)\<bar> < 1 / 10 ^ 9 then u else u @ [x])"
  by (induction xs arbitrary: acc) (simp_all add: Let_def)

lemma unique_loop_length: "length (unique_loop xs acc) \<le> length acc + length xs"
proof (induction xs arbitrary: acc)
  case Nil
  then show ?case by simp
next
  case (Cons x xs)
  show ?case
    using Cons [of acc] Cons [of "acc @ [x]"] by simp
qed

lemma dedupe_step_cells:
  assumes m: "m < length rs" and u: "length us \<le> m"
    and a: "a = map Some rs @ rest"
  shows "dedupe_step m (map Some us @ drop (length us) a, length us) =
           (let vs = (if us \<noteq> [] \<and> \<bar>ip_t (rs ! m) - ip_t (last us)\<bar> < 1 / 10 ^ 9
                      then us else us @ [rs ! m])
            in Inr (map Some vs @ drop (length vs) a, length vs))"
proof -
  let ?b = "map Some us @ drop (length us) a"
  have la: "length us < length a" using m u a by simp
  have "?b ! m = a ! m"
    using u la by (simp add: nth_append)
  moreover have "a ! m = Some (rs ! m)"
    using m a by (simp add: nth_append)
  ultimately have rd: "?b ! m = Some (rs ! m)" by simp
  have lastu: "us \<noteq> [] \<Longrightarrow> ?b ! (length us - 1) = Some (last us)"
    by (simp add: nth_append last_conv_nth)
  have st: "store ?b (length us) (Some (rs ! m))
           = Inr (map Some (us @ [rs ! m]) @ drop (length (us @ [rs ! m])) a)"
    using store_at_end [of "map Some us" a "Some (rs ! m)"] la by simp
  show ?thesis
  proof (cases "us \<noteq> [] \<and> \<bar>ip_t (rs ! m) - ip_t (last us)\<bar> < 1 / 10 ^ 9")
    case True
    then show ?thesis
      using lastu rd by (simp add: dedupe_step_def)
  next
    case False
    have cond: "\<not> (length us > 0 \<and>
        \<bar>ip_t (the (?b ! m)) - ip_t (the (?b ! (length us - 1)))\<bar> < 1 / 10 ^ 9)"
    proof (cases "us = []")
      case True
      then show ?thesis by simp
    next
      case nonempty: False
      with False lastu rd show ?thesis by simp
    qed
    show ?thesis
      using False cond rd st by (simp add: dedupe_step_def Let_def del: map_append)
  qed
qed

lemma dedupe_loop_cells:
  assumes "m \<le> length rs" and a: "a = map Some rs @ rest"
  shows "for_each dedupe_step [0..<m] (a, 0) =
           (let us = unique_loop (take m rs) []
            in Inr (map Some us @ drop (length us) a, length us))"
  using assms(1)
proof (induction m)
  case 0
  then show ?case by simp
next
  case (Suc m)
  define us where "us = unique_loop (take m rs) []"
  have m: "m < length rs" using Suc.prems by simp
  have ulen: "length us \<le> m"
    using unique_loop_length [of "take m rs" "[]"] m by (simp add: us_def)
  have ih: "for_each dedupe_step [0..<m] (a, 0)
              = Inr (map Some us @ drop (length us) a, length us)"
    using Suc by (simp add: us_def Let_def)
  have tk: "take (Suc m) rs = take m rs @ [rs ! m]"
    using m by (simp add: take_Suc_conv_app_nth)
  show ?case
    using dedupe_step_cells [OF m ulen a]
    by (simp add: for_each_append ih tk unique_loop_snoc us_def Let_def del: map_append)
qed

lemma pair_loop_buf_cells:
  "pair_loop_buf polygon n (map Some us @ rest) (length us) j = pair_loop polygon n us j"
proof (induction polygon n us j rule: pair_loop.induct)
  case (1 polygon n us k)
  show ?case
  proof (cases "k + 1 < length us")
    case True
    then have rd: "(map Some us @ rest) ! k = Some (us ! k)"
        "(map Some us @ rest) ! (k + 1) = Some (us ! (k + 1))"
      by (simp_all add: nth_append)
    show ?thesis
      using True 1 [OF True refl refl refl refl refl refl] rd
      by (subst pair_loop_buf.simps, subst pair_loop.simps) (simp add: Let_def)
  next
    case False
    then show ?thesis
      by (subst pair_loop_buf.simps, subst pair_loop.simps) simp
  qed
qed

lemma process_line_clip_line:
  assumes "length a = n"
  shows "\<exists>a'. length a' = n \<and>
           process_line polygon n start end eps a =
             (case clip_line polygon n start end eps of
                Inl e \<Rightarrow> Inl e | Inr segs \<Rightarrow> Inr (segs, a'))"
proof -
  define cs where "cs = collect_intersections polygon n start end eps"
  have cs: "cs = concat (map (\<lambda>j. hit_cells (edge_hit polygon n start end eps j)) [0..<n])"
    by (simp add: cs_def collect_intersections_concat)
  have clen: "length cs \<le> n"
    unfolding cs by (rule collected_length)
  define a1 where "a1 = cs @ drop (length cs) a"
  have a1len: "length a1 = n" using clen assms by (simp add: a1_def)
  have coll: "for_each (collect_step polygon n start end eps) [0..<n] (a, 0)
                = Inr (a1, length cs)"
    using collect_loop_cells [of n a polygon n start "end" eps] assms
    by (simp add: Let_def cs a1_def)
  have tk: "take (length cs) a1 = cs" by (simp add: a1_def)
  have pl: "process_line polygon n start end eps a =
      (if length cs < 2 then Inr ([], a1)
       else if None \<in> set cs then Inl NonFinite
       else (case for_each dedupe_step [0..<length cs] (sort_prefix a1 (length cs), 0) of
               Inl e \<Rightarrow> Inl e
             | Inr (a3, uc) \<Rightarrow> Inr (pair_loop_buf polygon n a3 uc 0, a3)))"
    by (simp add: process_line_def coll tk)
  have cl: "clip_line polygon n start end eps =
      (if length cs < 2 then Inr []
       else if None \<in> set cs then Inl NonFinite
       else Inr (pair_loop polygon n (unique_loop (std_sort (map the cs)) []) 0))"
    by (simp add: clip_line_def cs_def Let_def)
  show ?thesis
  proof (cases "length cs < 2 \<or> None \<in> set cs")
    case True
    then show ?thesis
      unfolding pl cl using a1len by auto
  next
    case False
    define rs where "rs = map the cs"
    have rlen: "length rs = length cs" by (simp add: rs_def)
    define a2 where "a2 = map Some (std_sort rs) @ drop (length cs) a"
    have sp: "sort_prefix a1 (length cs) = a2"
      unfolding a1_def a2_def rs_def by (rule sort_prefix_cells)
    define us where "us = unique_loop (std_sort rs) []"
    define a3 where "a3 = map Some us @ drop (length us) a2"
    have slen: "length (std_sort rs) = length cs" by (simp add: std_sort_def rlen)
    have ded: "for_each dedupe_step [0..<length cs] (a2, 0) = Inr (a3, length us)"
      using dedupe_loop_cells [of "length cs" "std_sort rs" a2 "drop (length cs) a"] slen
      by (simp add: a2_def a3_def us_def Let_def)
    have ulen: "length us \<le> length cs"
      using unique_loop_length [of "std_sort rs" "[]"] slen by (simp add: us_def)
    have a2len: "length a2 = n" using clen assms slen by (simp add: a2_def)
    have a3len: "length a3 = n" using ulen clen a2len by (simp add: a3_def)
    have plb: "pair_loop_buf polygon n a3 (length us) 0 = pair_loop polygon n us 0"
      unfolding a3_def by (rule pair_loop_buf_cells)
    have "process_line polygon n start end eps a = Inr (pair_loop polygon n us 0, a3)"
      unfolding pl using False by (simp add: sp ded plb)
    moreover have "clip_line polygon n start end eps = Inr (pair_loop polygon n us 0)"
      unfolding cl using False by (simp add: us_def rs_def)
    ultimately show ?thesis using a3len by auto
  qed
qed

section \<open>One line, step by step\<close>

lemma unique_loop_collapse_from:
  "acc \<noteq> [] \<Longrightarrow> unique_loop xs acc = acc @ collapse_from (ip_t (last acc)) xs"
  by (induction xs arbitrary: acc) simp_all

lemma unique_loop_collapse: "unique_loop xs [] = collapse xs"
  by (cases xs) (simp_all add: unique_loop_collapse_from)

lemma midpoint_inside_pair:
  "midpoint_inside polygon n (a, b) =
     point_in_polygon (0.5 * (ip_x a + ip_x b)) (0.5 * (ip_y a + ip_y b)) polygon n"
  by (simp add: midpoint_inside_def)

lemma endpoints_pair: "endpoints (a, b) = ((ip_x a, ip_y a), (ip_x b, ip_y b))"
  by (simp add: endpoints_def)

lemma pair_loop_pairs:
  "pair_loop polygon n us k =
     map endpoints (filter (midpoint_inside polygon n) (pairs (drop k us)))"
proof (induction polygon n us k rule: pair_loop.induct)
  case (1 polygon n us k)
  show ?case
  proof (cases "k + 1 < length us")
    case True
    have "drop k us = us ! k # drop (Suc k) us"
      using True by (simp add: Cons_nth_drop_Suc)
    also have "drop (Suc k) us = us ! (k + 1) # drop (k + 2) us"
      using True by (simp add: Cons_nth_drop_Suc)
    finally have dr: "drop k us = us ! k # us ! (k + 1) # drop (k + 2) us" .
    show ?thesis
      using True 1 [OF True refl refl refl refl refl refl]
      by (subst pair_loop.simps) (simp add: dr Let_def midpoint_inside_pair endpoints_pair)
  next
    case False
    then have "drop k us = [] \<or> (\<exists>a. drop k us = [a])"
      by (cases "drop k us" rule: pairs.cases) (auto dest: arg_cong [where f = length])
    then have "pairs (drop k us) = []" by auto
    then show ?thesis
      using False by (subst pair_loop.simps) simp
  qed
qed

lemma clip_line_kept_pairs:
  "clip_line polygon n start end eps =
     (let recs = collect_intersections polygon n start end eps
      in if length recs < 2 then Inr []
         else if None \<in> set recs then Inl NonFinite
         else Inr (map endpoints (kept_pairs polygon n (map the recs))))"
  by (simp add: clip_line_def Let_def kept_pairs_def pair_loop_pairs unique_loop_collapse
      std_sort_def)


lemma collected_count:
  "length (concat (map (\<lambda>j. hit_cells (g j)) js)) = length (filter (\<lambda>j. g j \<noteq> Miss) js)"
proof (induction js)
  case Nil
  then show ?case by simp
next
  case (Cons j js)
  then show ?case by (cases "g j") (simp_all add: hit_cells_def)
qed

lemma clip_line_errors: "clip_line polygon n start end eps = Inl e \<Longrightarrow> e = NonFinite"
  by (auto simp add: clip_line_def Let_def split: if_splits)

lemma line_loop_errors:
  assumes "length a = n"
  shows "for_each (line_step polygon n line_starts line_ends eps) is (res, a) \<noteq> Inl OutOfBounds"
  using assms
proof (induction "is" arbitrary: res a)
  case Nil
  then show ?case by simp
next
  case (Cons i "is")
  obtain a' where a': "length a' = n"
    and pl: "process_line polygon n (line_starts ! i) (line_ends ! i) eps a =
             (case clip_line polygon n (line_starts ! i) (line_ends ! i) eps of
                Inl e \<Rightarrow> Inl e | Inr segs \<Rightarrow> Inr (segs, a'))"
    using process_line_clip_line [OF Cons.prems] by blast
  show ?case
  proof (cases "clip_line polygon n (line_starts ! i) (line_ends ! i) eps")
    case (Inl e)
    then have "e = NonFinite" by (rule clip_line_errors)
    then show ?thesis using Inl pl by (simp add: line_step_def)
  next
    case (Inr segs)
    then show ?thesis
      using pl Cons.IH [OF a'] by (simp add: line_step_def)
  qed
qed

lemma ensure_double_2d_errors: "ensure_double_2d obj name \<noteq> Inl OutOfBounds"
  by (auto simp add: ensure_double_2d_def split: buffer_arg.splits)

section \<open>Level lines across the unit square\<close>

lemma pip_unit_square:
  "point_in_polygon (1/2) y unit_square 4 = (0 \<le> y \<and> y < 1)"
  using tiny_bounds
  by (auto simp add: unit_square_def point_in_polygon_def pip_loop.simps
      edge_crosses_vertical edge_crosses_level)

lemma in_range_unit: "0 \<le> eps \<Longrightarrow> 0 \<le> t \<Longrightarrow> t \<le> 1 \<Longrightarrow> in_range eps t"
  by (simp add: in_range_def)

lemma edge_hit_square_level:
  assumes "0 < eps"
  shows "edge_hit unit_square 4 (a, y) (b, y) eps 0 = Miss"
    and "edge_hit unit_square 4 (a, y) (b, y) eps 2 = Miss"
  using assms
  by (simp_all add: edge_hit_def unit_square_def compute_parallel denom_of_def)

lemma edge_hit_square_right:
  assumes "0 < eps" "eps \<le> 1" "a \<le> 0" "1 \<le> b"
  shows "edge_hit unit_square 4 (a, y) (b, y) eps 1 =
           (if in_range eps y then Hit (record_at (a, y) (b, y) ((1 - a) / (b - a))) else Miss)"
proof -
  have d: "denom_of (a, y) (b, y) (1, 0) (1, 1) = b - a"
    by (simp add: denom_of_def)
  have t: "t_of (a, y) (b, y) (1, 0) (1, 1) = (1 - a) / (b - a)"
    by (simp add: t_of_def d)
  have u: "u_of (a, y) (b, y) (1, 0) (1, 1) = y"
    using assms by (simp add: u_of_def d field_simps)
  have ab: "a < b" using assms by simp
  have "0 \<le> (1 - a) / (b - a)" "(1 - a) / (b - a) \<le> 1"
    using ab assms by (simp_all add: field_simps)
  then have tr: "in_range eps ((1 - a) / (b - a))"
    using assms by (intro in_range_unit) simp_all
  have "compute_line_segment_intersection (a, y) (b, y) (1, 0) (1, 1) eps =
      (if in_range eps y then Hit (record_at (a, y) (b, y) ((1 - a) / (b - a))) else Miss)"
    using assms compute_regular [of "(a, y)" "(b, y)" "(1, 0)" "(1, 1)" eps]
    by (simp add: d t u tr)
  then show ?thesis
    by (simp add: edge_hit_def unit_square_def)
qed

lemma edge_hit_square_left:
  assumes "0 < eps" "eps \<le> 1" "a \<le> 0" "1 \<le> b"
  shows "edge_hit unit_square 4 (a, y) (b, y) eps 3 =
           (if in_range eps y then Hit (record_at (a, y) (b, y) (- (a / (b - a)))) else Miss)"
proof -
  have d: "denom_of (a, y) (b, y) (0, 1) (0, 0) = a - b"
    by (simp add: denom_of_def)
  have t: "t_of (a, y) (b, y) (0, 1) (0, 0) = - (a / (b - a))"
    using assms by (simp add: t_of_def d field_simps)
  have u: "u_of (a, y) (b, y) (0, 1) (0, 0) = 1 - y"
    using assms by (simp add: u_of_def d field_simps)
  have ab: "a < b" using assms by simp
  have "0 \<le> - (a / (b - a))" "- (a / (b - a)) \<le> 1"
    using ab assms by (simp_all add: field_simps)
  then have tr: "in_range eps (- (a / (b - a)))"
    using assms by (intro in_range_unit) simp_all
  have ur: "in_range eps (1 - y) = in_range eps y"
    by (auto simp add: in_range_def)
  have "compute_line_segment_intersection (a, y) (b, y) (0, 1) (0, 0) eps =
      (if in_range eps y then Hit (record_at (a, y) (b, y) (- (a / (b - a)))) else Miss)"
    using assms compute_regular [of "(a, y)" "(b, y)" "(0, 1)" "(0, 0)" eps]
    by (simp add: d t u tr ur)
  then show ?thesis
    by (simp add: edge_hit_def unit_square_def)
qed

lemma upt_4: "[0..<4] = [0, 1, 2, 3]"
  by (simp add: upt_rec numeral_eq_Suc)

lemma collect_square_level:
  assumes "0 < eps" "eps \<le> 1" "a \<le> 0" "1 \<le> b"
  shows "collect_intersections unit_square 4 (a, y) (b, y) eps =
           (if in_range eps y
            then [Some (record_at (a, y) (b, y) ((1 - a) / (b - a))),
                  Some (record_at (a, y) (b, y) (- (a / (b - a))))]
            else [])"
  using edge_hit_square_level [OF assms(1), of a y b]
    edge_hit_square_right [OF assms, of y] edge_hit_square_left [OF assms, of y]
  by (simp add: collect_intersections_concat upt_4 hit_cells_def)

lemma kept_pairs_square_level:
  assumes "a \<le> 0" "1 \<le> b" "b - a \<le> 10 ^ 9"
  shows "map endpoints (kept_pairs unit_square 4
           [record_at (a, y) (b, y) ((1 - a) / (b - a)),
            record_at (a, y) (b, y) (- (a / (b - a)))])
         = (if 0 \<le> y \<and> y < 1 then [((0, y), (1, y))] else [])"
proof -
  let ?r = "record_at (a, y) (b, y) ((1 - a) / (b - a))"
  let ?l = "record_at (a, y) (b, y) (- (a / (b - a)))"
  have ba: "0 < b - a" using assms by simp
  have "- a < 1 - a" by simp
  then have "- a / (b - a) < (1 - a) / (b - a)"
    using ba by (rule divide_strict_right_mono)
  then have lt: "ip_t ?l < ip_t ?r"
    by (simp add: record_at_def)
  have srt: "sort_key ip_t [?r, ?l] = [?l, ?r]"
    using lt by simp
  have "ip_t ?r - ip_t ?l = 1 / (b - a)"
    using ba by (simp add: record_at_def field_simps)
  moreover have "1 / 10 ^ 9 \<le> 1 / (b - a)"
    using ba assms(3) by (simp add: field_simps)
  ultimately have gap: "\<not> \<bar>ip_t ?r - ip_t ?l\<bar> < 1 / 10 ^ 9"
    by linarith
  have col: "collapse [?l, ?r] = [?l, ?r]"
    using gap by simp
  have lx: "ip_x ?l = 0" "ip_y ?l = y"
    using ba by (simp_all add: record_at_def along_def field_simps)
  have rx: "ip_x ?r = 1" "ip_y ?r = y"
    using ba by (simp_all add: record_at_def along_def field_simps)
  have mid: "midpoint_inside unit_square 4 (?l, ?r) = (0 \<le> y \<and> y < 1)"
    using pip_unit_square [of y] by (simp add: midpoint_inside_pair lx rx)
  show ?thesis
    unfolding kept_pairs_def srt col
    by (simp add: mid endpoints_pair lx rx)
qed

lemma clip_line_square_level:
  assumes "0 < eps" "eps \<le> 1" "a \<le> 0" "1 \<le> b" "b - a \<le> 10 ^ 9"
  shows "clip_line unit_square 4 (a, y) (b, y) eps =
           Inr (if 0 \<le> y \<and> y < 1 then [((0, y), (1, y))] else [])"
proof (cases "in_range eps y")
  case True
  then show ?thesis
    using kept_pairs_square_level [OF assms(3,4,5), of y]
    by (simp add: clip_line_kept_pairs collect_square_level [OF assms(1-4)])
next
  case False
  then have "\<not> (0 \<le> y \<and> y < 1)" using assms by (auto simp add: in_range_def)
  with False show ?thesis
    by (simp add: clip_line_kept_pairs collect_square_level [OF assms(1-4)])
qed

section \<open>Hatching the unit square\<close>

lemma sqrt2_bounds: "5 / 4 \<le> sqrt 2" "sqrt 2 < 3 / 2"
proof -
  have "sqrt ((5 / 4)\<^sup>2) \<le> sqrt 2"
    by (rule real_sqrt_le_mono) (simp add: power2_eq_square)
  then show "5 / 4 \<le> sqrt 2" by simp
  have "sqrt 2 < sqrt ((3 / 2)\<^sup>2)"
    by (rule real_sqrt_less_mono) (simp add: power2_eq_square)
  then show "sqrt 2 < 3 / 2" by simp
qed

lemma trunc_sqrt2: "trunc_int (sqrt 2 * 4) = 5"
proof -
  have "\<lfloor>sqrt 2 * 4\<rfloor> = 5"
    using sqrt2_bounds by (intro floor_unique) simp_all
  then show ?thesis by (simp add: trunc_int_def)
qed

lemma for_each_total:
  assumes "\<And>x s. body x s = Inr (s @ g x)"
  shows "for_each body xs s = Inr (s @ concat (map g xs))"
  by (induction xs arbitrary: s) (simp_all add: assms)

lemma square_length: "effective_polygon_length unit_square 4 = 4"
  by (simp add: effective_polygon_length_def unit_square_def)

lemma square_centroid: "centroid_mean unit_square 4 = (1 / 2, 1 / 2)"
  by (simp add: centroid_mean_def unit_square_def upt_4)

lemma upt_1_4: "[Suc 0..<4] = [1, 2, 3]"
  by (simp add: upt_rec numeral_eq_Suc)

lemma square_bbox: "bbox_diagonal unit_square 4 = sqrt 2"
  by (simp add: bbox_diagonal_def bbox_step_def unit_square_def upt_1_4 hypot_def)

lemma square_fill_line:
  "fill_line (1 / 2, 1 / 2) (sqrt 2) 2 (1 / 4) 0 idx =
     ((1 / 2 - 2 * sqrt 2, 1 / 2 + real_of_int idx / 4),
      (1 / 2 + 2 * sqrt 2, 1 / 2 + real_of_int idx / 4))"
  by (simp add: fill_line_def Let_def)

lemma square_fill_step:
  "fill_step unit_square 4 (1 / 2, 1 / 2) (sqrt 2) 2 (1 / 4) 0 idx segments =
     Inr (segments @
          (if 0 \<le> 1 / 2 + real_of_int idx / 4 \<and> 1 / 2 + real_of_int idx / 4 < 1
           then [((0, 1 / 2 + real_of_int idx / 4), (1, 1 / 2 + real_of_int idx / 4))]
           else []))"
proof -
  have a: "1 / 2 - 2 * sqrt 2 \<le> 0" using sqrt2_bounds by simp
  have b: "1 \<le> 1 / 2 + 2 * sqrt 2" using sqrt2_bounds by simp
  have w: "1 / 2 + 2 * sqrt 2 - (1 / 2 - 2 * sqrt 2) \<le> 10 ^ 9"
    using sqrt2_bounds by simp
  have e: "(0::real) < 1 / 10 ^ 10" "(1::real) / 10 ^ 10 \<le> 1" by simp_all
  show ?thesis
    unfolding fill_step_def square_fill_line
    using clip_line_square_level [OF e a b w, of "1 / 2 + real_of_int idx / 4"]
    by simp
qed

lemma idx_list:
  "[- 8..8 :: int] = [- 8, - 7, - 6, - 5, - 4, - 3, - 2, - 1, 0, 1, 2, 3, 4, 5, 6, 7, 8]"
  by (simp add: upto.simps)

lemma square_fill:
  "generate_line_fill (Buffer (view_of unit_square)) (1 / 4) 0 None None 2 =
     Inr [((0, 0), (1, 0)), ((0, 1 / 4), (1, 1 / 4)),
          ((0, 1 / 2), (1, 1 / 2)), ((0, 3 / 4), (1, 3 / 4))]"
proof -
  have ens: "ensure_double_2d (Buffer (view_of unit_square)) ''polygon''
               = Inr (view_of unit_square)"
    by (simp add: ensure_double_2d_def view_of_def)
  have v: "buf (view_of unit_square) = unit_square" "shape (view_of unit_square) ! 0 = 4"
    by (simp_all add: view_of_def unit_square_def)
  have s2: "0 < sqrt 2" by simp
  have loop: "for_each (fill_step unit_square 4 (1 / 2, 1 / 2) (sqrt 2) 2 (1 / 4) 0)
      [- 8, - 7, - 6, - 5, - 4, - 3, - 2, - 1, 0, 1, 2, 3, 4, 5, 6, 7, 8] []
      = Inr [((0, 0), (1, 0)), ((0, 1 / 4), (1, 1 / 4)),
          ((0, 1 / 2), (1, 1 / 2)), ((0, 3 / 4), (1, 3 / 4))]"
    by (simp add: square_fill_step)
  have "generate_line_fill (Buffer (view_of unit_square)) (1 / 4) 0 None None 2 =
      for_each (fill_step unit_square 4 (1 / 2, 1 / 2) (sqrt 2) 2 (1 / 4) 0) [- 8..8] []"
    using s2
    by (simp add: generate_line_fill_def ens v square_length square_centroid square_bbox
        trunc_sqrt2 Let_def del: upto_rec_numeral)
  then show ?thesis
    by (simp only: idx_list loop)
qed

section \<open>Order and distance of the endpoints\<close>







lemma compute_hit_on_line:
  assumes "compute_line_segment_intersection p1 p2 p3 p4 eps = Hit ip"
  shows "ip = record_at p1 p2 (ip_t ip) \<and> p1 \<noteq> p2"
proof -
  have nz: "denom_of p1 p2 p3 p4 \<noteq> 0"
    using assms
    by (auto simp add: compute_line_segment_intersection_def denom_of_def Let_def
        split: if_splits)
  have "ip = record_at p1 p2 (ip_t ip)"
    using assms
    by (auto simp add: compute_line_segment_intersection_def record_at_def along_def Let_def
        split: if_splits)
  moreover have "p1 \<noteq> p2"
    using nz by (auto simp add: denom_of_def)
  ultimately show ?thesis by simp
qed

lemma collected_on_line:
  assumes "Some ip \<in> set (collect_intersections polygon n start end eps)"
  shows "ip = record_at start end (ip_t ip) \<and> start \<noteq> end"
proof -
  obtain j where "Some ip \<in> set (hit_cells (edge_hit polygon n start end eps j))"
    using assms by (auto simp add: collect_intersections_concat)
  then have "edge_hit polygon n start end eps j = Hit ip"
    by (cases "edge_hit polygon n start end eps j") (simp_all add: hit_cells_def)
  then show ?thesis
    unfolding edge_hit_def by (rule compute_hit_on_line)
qed




section \<open>Where the segments of a result come from\<close>






section \<open>One line through the whole operation\<close>






lemma std_sort_determined:
  assumes "mset ys = mset rs" and "sorted (map ip_t ys)"
    and "\<And>a b. a \<in> set rs \<Longrightarrow> b \<in> set rs \<Longrightarrow> ip_t a = ip_t b \<Longrightarrow> a = b"
  shows "ys = std_sort rs"
proof -
  have "inj_on ip_t (set rs)"
    using assms(3) by (auto simp add: inj_on_def)
  then show ?thesis
    unfolding std_sort_def
    using assms(1,2) by (metis sort_key_inj_key_eq)
qed

lemma collected_same_key:
  assumes "Some a \<in> set (collect_intersections polygon n start end eps)"
    and "Some b \<in> set (collect_intersections polygon n start end eps)"
    and "ip_t a = ip_t b"
  shows "a = b"
  using collected_on_line [OF assms(1)] collected_on_line [OF assms(2)] assms(3)
  by metis

section \<open>A square of side 1e-6\<close>





section \<open>Clipping an emitted segment again\<close>









section \<open>The hatch fill of the unit square\<close>

text \<open>
  Claim C1, as amended. For the unit square with spacing 0.25, angle 0 and the default
  centroid, diagonal and overshoot, \<open>generate_line_fill\<close> returns four horizontal
  segments, each from \<open>x = 0\<close> to \<open>x = 1\<close>, at the heights 0, 0.25, 0.5 and 0.75:
  the centroid's height 0.5 plus \<open>k\<close> times the spacing for \<open>k = -2, ..., 1\<close> (the
  line at height 1 fails the midpoint test). The candidate line of offset index \<open>k\<close>
  is centred at the centroid plus \<open>k\<close> times the spacing along the perpendicular.
\<close>

theorem unit_square_fill:
  "generate_line_fill (Buffer (view_of unit_square)) (1 / 4) 0 None None 2 =
     Inr [((0, 0), (1, 0)), ((0, 1 / 4), (1, 1 / 4)),
          ((0, 1 / 2), (1, 1 / 2)), ((0, 3 / 4), (1, 3 / 4))]
   \<and> (let line = fill_line c d ov s ang k; r = ang * kDegToRad
      in ((fst (fst line) + fst (snd line)) / 2, (snd (fst line) + snd (snd line)) / 2)
           = (fst c + real_of_int k * s * (- sin r), snd c + real_of_int k * s * cos r))"
  by (simp add: square_fill fill_line_def Let_def)

text \<open>
  None of the heights returned is within 0.1 of one of 0.125, 0.375, 0.625 and 0.875.
\<close>

theorem unit_square_fill_counterexample:
  "\<not> (\<forall>seg\<in>set (projr (generate_line_fill (Buffer (view_of unit_square)) (1 / 4) 0
                          None None 2)).
        \<exists>v\<in>{1 / 8, 3 / 8, 5 / 8, 7 / 8}. \<bar>snd (fst seg) - v\<bar> \<le> 1 / 10)"
  by (simp add: square_fill)

section \<open>The clipping of one line\<close>








text \<open>
  Claim C10. For a scratch array of \<open>polygon_len\<close> elements, the loop over the edges
  ends without a write out of bounds, the number of records it has stored is the number
  of edges with an accepted intersection (one record an edge at most) and so at most
  \<open>polygon_len\<close>; no later write of the iteration, and none of the whole operation,
  is out of bounds either.
\<close>

theorem scratch_writes_in_bounds:
  "(length intersections = polygon_len \<longrightarrow>
      (\<exists>a cnt. for_each (collect_step polygon polygon_len start end eps) [0..<polygon_len]
                  (intersections, 0) = Inr (a, cnt)
         \<and> cnt = length (filter (\<lambda>j. edge_hit polygon polygon_len start end eps j \<noteq> Miss)
                           [0..<polygon_len])
         \<and> cnt \<le> polygon_len \<and> length a = polygon_len)
      \<and> process_line polygon polygon_len start end eps intersections \<noteq> Inl OutOfBounds)
   \<and> clip_lines_to_polygon garbage polygon_obj line_starts_obj line_ends_obj eps
       \<noteq> Inl OutOfBounds"
proof (intro conjI impI)
  assume len: "length intersections = polygon_len"
  define ys where
    "ys = concat (map (\<lambda>j. hit_cells (edge_hit polygon polygon_len start end eps j))
                    [0..<polygon_len])"
  have ylen: "length ys \<le> polygon_len"
    unfolding ys_def by (rule collected_length)
  have "for_each (collect_step polygon polygon_len start end eps) [0..<polygon_len]
          (intersections, 0) = Inr (ys @ drop (length ys) intersections, length ys)"
    using collect_loop_cells [of polygon_len intersections polygon polygon_len start "end" eps]
      len by (simp add: Let_def ys_def)
  moreover have "length ys = length (filter (\<lambda>j. edge_hit polygon polygon_len start end eps j \<noteq> Miss)
                           [0..<polygon_len])"
    unfolding ys_def by (rule collected_count)
  moreover have "length (ys @ drop (length ys) intersections) = polygon_len"
    using ylen len by simp
  ultimately show "\<exists>a cnt. for_each (collect_step polygon polygon_len start end eps) [0..<polygon_len]
                  (intersections, 0) = Inr (a, cnt)
         \<and> cnt = length (filter (\<lambda>j. edge_hit polygon polygon_len start end eps j \<noteq> Miss)
                           [0..<polygon_len])
         \<and> cnt \<le> polygon_len \<and> length a = polygon_len"
    using ylen by metis
next
  assume len: "length intersections = polygon_len"
  obtain a' where "process_line polygon polygon_len start end eps intersections =
             (case clip_line polygon polygon_len start end eps of
                Inl e \<Rightarrow> Inl e | Inr segs \<Rightarrow> Inr (segs, a'))"
    using process_line_clip_line [OF len] by blast
  then show "process_line polygon polygon_len start end eps intersections \<noteq> Inl OutOfBounds"
    using clip_line_errors [of polygon polygon_len start "end" eps]
    by (auto split: sum.splits)
next
  show "clip_lines_to_polygon garbage polygon_obj line_starts_obj line_ends_obj eps
       \<noteq> Inl OutOfBounds"
    using ensure_double_2d_errors line_loop_errors
    by (auto simp add: clip_lines_to_polygon_def Let_def split: sum.splits prod.splits)
qed

theorem scratch_writes_in_bounds_witness:
  "(\<exists>a cnt. for_each (collect_step unit_square 4 (- 1, 1 / 2) (2, 1 / 2) (1 / 10 ^ 10)) [0..<4]
                  (replicate 4 None, 0) = Inr (a, cnt)
         \<and> cnt = length (filter (\<lambda>j. edge_hit unit_square 4 (- 1, 1 / 2) (2, 1 / 2) (1 / 10 ^ 10) j
                                    \<noteq> Miss) [0..<4])
         \<and> cnt \<le> 4 \<and> length a = 4)
   \<and> process_line unit_square 4 (- 1, 1 / 2) (2, 1 / 2) (1 / 10 ^ 10) (replicate 4 None)
       \<noteq> Inl OutOfBounds"
  using scratch_writes_in_bounds [of "replicate 4 None" 4 unit_square "(- 1, 1 / 2)"
      "(2, 1 / 2)" "1 / 10 ^ 10"]
  by simp

end
